theory Spec2Isabelle
  imports Complex_Main
begin

section \<open>JavaScript values used by the game\<close>

text \<open>
  A JavaScript number is a double. The board code only compares a cell number with the
  constants 1, 3 and 9 and subtracts 3 and 1 from it; on the range the guard of
  \<open>setPlayerPosition\<close> lets through these subtractions are exact, so a finite number is
  modelled by its rational value. \<open>NaN\<close> and the two infinities are kept as values of
  their own, with the comparison and subtraction rules of the language.
\<close>

datatype jsnum = Fin rat | PosInf | NegInf | NaN

datatype jsError = TypeError

text \<open>\<open>a < b\<close> of the language: false as soon as one side is \<open>NaN\<close>.\<close>

fun js_lt :: "jsnum \<Rightarrow> jsnum \<Rightarrow> bool" where
  "js_lt NaN _ = False"
| "js_lt _ NaN = False"
| "js_lt (Fin a) (Fin b) = (a < b)"
| "js_lt (Fin _) PosInf = True"
| "js_lt (Fin _) NegInf = False"
| "js_lt PosInf _ = False"
| "js_lt NegInf NegInf = False"
| "js_lt NegInf _ = True"

definition js_gt :: "jsnum \<Rightarrow> jsnum \<Rightarrow> bool" where
  "js_gt a b = js_lt b a"

text \<open>\<open>a - b\<close> of the language.\<close>

fun js_sub :: "jsnum \<Rightarrow> jsnum \<Rightarrow> jsnum" where
  "js_sub NaN _ = NaN"
| "js_sub _ NaN = NaN"
| "js_sub (Fin a) (Fin b) = Fin (a - b)"
| "js_sub (Fin _) PosInf = NegInf"
| "js_sub (Fin _) NegInf = PosInf"
| "js_sub PosInf PosInf = NaN"
| "js_sub PosInf _ = PosInf"
| "js_sub NegInf NegInf = NaN"
| "js_sub NegInf _ = NegInf"

text \<open>
  \<open>xs[k]\<close> for an array \<open>xs\<close> and a number \<open>k\<close>: the element when \<open>k\<close> is an integer
  index inside the array, and \<open>undefined\<close> (here \<open>None\<close>) for every other key
  (a fraction, a negative number, \<open>NaN\<close>, an index past the end).
\<close>

definition isIndex :: "'a list \<Rightarrow> jsnum \<Rightarrow> bool" where
  "isIndex xs k =
     (case k of
        Fin q \<Rightarrow> 0 \<le> q \<and> of_int \<lfloor>q\<rfloor> = q \<and> nat \<lfloor>q\<rfloor> < length xs
      | _ \<Rightarrow> False)"

definition toIndex :: "jsnum \<Rightarrow> nat" where
  "toIndex k = (case k of Fin q \<Rightarrow> nat \<lfloor>q\<rfloor> | _ \<Rightarrow> 0)"

definition arrayGet :: "'a list \<Rightarrow> jsnum \<Rightarrow> 'a option" where
  "arrayGet xs k = (if isIndex xs k then Some (xs ! toIndex k) else None)"

section \<open>Player\<close>

text \<open>\<open>createPlayer(name, playerMark)\<close>: an object with two read accessors.
  \<open>prompt\<close> returns the text entered or \<open>null\<close> (here \<open>None\<close>) when it is cancelled,
  and \<open>createPlayer\<close> takes either.\<close>

record player =
  getPlayerName :: "string option"
  getPlayerMark :: string

definition createPlayer :: "string option \<Rightarrow> string \<Rightarrow> player" where
  "createPlayer name playerMark = \<lparr>getPlayerName = name, getPlayerMark = playerMark\<rparr>"

section \<open>The board module\<close>

definition rows :: nat where "rows = 3"
definition cols :: nat where "cols = 3"
definition totalCellCount :: nat where "totalCellCount = rows * cols"

record gameBoard =
  board :: "string list list"
  filledCellCount :: nat

definition initialBoard :: gameBoard where
  "initialBoard =
     \<lparr>board = [['' '', '' '', '' ''], ['' '', '' '', '' ''], ['' '', '' '', '' '']],
      filledCellCount = 0\<rparr>"

text \<open>
  The loop of \<open>setPlayerPosition\<close> that turns the cell number into a row index and a
  remainder: \<open>while (cellNumber > rows) { rowIndex++; cellNumber -= rows; }\<close>.
  On \<open>+Infinity\<close> the loop alone would never end, so it is a partial function and
  \<open>None\<close> stands for not returning.
\<close>

partial_function (option) rowLoop :: "nat \<Rightarrow> jsnum \<Rightarrow> (nat \<times> jsnum) option" where
  "rowLoop rowIndex cellNumber =
     (if js_gt cellNumber (Fin (of_nat rows))
      then rowLoop (Suc rowIndex) (js_sub cellNumber (Fin (of_nat rows)))
      else Some (rowIndex, cellNumber))"

declare rowLoop.simps [code]

text \<open>Lines 46 to 55 of the source: the row index from the loop, then
  \<open>colIndex = cellNumber - 1\<close>.\<close>

definition locateCell :: "jsnum \<Rightarrow> (nat \<times> jsnum) option" where
  "locateCell cellNumber =
     (case rowLoop 0 cellNumber of
        None \<Rightarrow> None
      | Some (rowIndex, cellNumber') \<Rightarrow> Some (rowIndex, js_sub cellNumber' (Fin 1)))"

text \<open>
  \<open>setPlayerPosition(cellNumber, playerMark)\<close>. The result is \<open>None\<close> when the call
  does not return, \<open>Some (Inl e)\<close> when it raises \<open>e\<close> (reading a property of
  \<open>undefined\<close>, should \<open>board[rowIndex]\<close> not exist), and \<open>Some (Inr (r, s'))\<close> when it
  returns \<open>r\<close> and leaves the board module in state \<open>s'\<close>.
\<close>

definition setPlayerPosition ::
  "jsnum \<Rightarrow> string \<Rightarrow> gameBoard \<Rightarrow> (jsError + bool \<times> gameBoard) option" where
  "setPlayerPosition cellNumber playerMark s =
     (if js_lt cellNumber (Fin 1) \<or> js_gt cellNumber (Fin 9) then Some (Inr (False, s))
      else
        (case locateCell cellNumber of
           None \<Rightarrow> None
         | Some (rowIndex, colIndex) \<Rightarrow>
             if length (board s) \<le> rowIndex then Some (Inl TypeError)
             else
               (case arrayGet (board s ! rowIndex) colIndex of
                  None \<Rightarrow> Some (Inr (False, s))
                | Some cell \<Rightarrow>
                    if cell = '' '' then
                      Some (Inr (True,
                        s\<lparr>board := (board s)[rowIndex :=
                                      (board s ! rowIndex)[toIndex colIndex := playerMark]],
                          filledCellCount := filledCellCount s + 1\<rparr>))
                    else Some (Inr (False, s)))))"

text \<open>The index translation as the specification words it, on integers:
  \<open>row = (cellNumber - 1) div 3\<close>, \<open>col = (cellNumber - 1) mod 3\<close>.\<close>

definition specRow :: "int \<Rightarrow> nat" where
  "specRow cellNumber = nat ((cellNumber - 1) div 3)"

definition specCol :: "int \<Rightarrow> nat" where
  "specCol cellNumber = nat ((cellNumber - 1) mod 3)"

text \<open>
  \<open>getBoard()\<close> is \<open>[...board]\<close>. In this state-passing model a value cannot be
  written through, so here it is the grid the copy holds; which arrays the copy shares
  with the board is the subject of the store model further down.
\<close>

definition getBoard :: "gameBoard \<Rightarrow> string list list" where
  "getBoard s = board s"

definition getBoardRowCount :: nat where "getBoardRowCount = rows"
definition getBoardColCount :: nat where "getBoardColCount = cols"
definition getTotalCellCount :: nat where "getTotalCellCount = totalCellCount"

definition getFilledCellCount :: "gameBoard \<Rightarrow> nat" where
  "getFilledCellCount s = filledCellCount s"

text \<open>\<open>resetBoard()\<close>: the inner loop over \<open>j\<close>, the outer loop over \<open>i\<close>, then the
  counter.\<close>

function resetRow :: "nat \<Rightarrow> string list \<Rightarrow> string list" where
  "resetRow j row = (if j < length row then resetRow (Suc j) (row[j := '' '']) else row)"
  by pat_completeness auto
termination
  by (relation "measure (\<lambda>(j, row). length row - j)") auto

declare resetRow.simps [simp del]

function resetRows :: "nat \<Rightarrow> string list list \<Rightarrow> string list list" where
  "resetRows i b =
     (if i < length b then resetRows (Suc i) (b[i := resetRow 0 (b ! i)]) else b)"
  by pat_completeness auto
termination
  by (relation "measure (\<lambda>(i, b). length b - i)") auto

declare resetRows.simps [simp del]

definition resetBoard :: "gameBoard \<Rightarrow> gameBoard" where
  "resetBoard s = s\<lparr>board := resetRows 0 (board s), filledCellCount := 0\<rparr>"

text \<open>The shape of the grid, and the number of its cells that are not empty.\<close>

definition wellFormed :: "gameBoard \<Rightarrow> bool" where
  "wellFormed s =
     (length (board s) = rows \<and> list_all (\<lambda>row. length row = cols) (board s))"

definition nonEmptyCells :: "gameBoard \<Rightarrow> nat" where
  "nonEmptyCells s = length (filter (\<lambda>cell. cell \<noteq> '' '') (concat (board s)))"

definition boardInv :: "gameBoard \<Rightarrow> bool" where
  "boardInv s = (wellFormed s \<and> filledCellCount s = nonEmptyCells s)"

text \<open>The operations of the board module that change its state, and the states they
  reach from the initial one. The accessors return a value and leave the state alone.\<close>

inductive reachable :: "gameBoard \<Rightarrow> bool" where
  initial: "reachable initialBoard"
| placed: "reachable s \<Longrightarrow> playerMark \<noteq> '' '' \<Longrightarrow>
           setPlayerPosition cellNumber playerMark s = Some (Inr (r, s')) \<Longrightarrow> reachable s'"
| reset: "reachable s \<Longrightarrow> reachable (resetBoard s)"

section \<open>The game module\<close>

definition winPositions :: "(nat \<times> nat) list list" where
  "winPositions =
     [[(0, 0), (0, 1), (0, 2)],
      [(1, 0), (1, 1), (1, 2)],
      [(2, 0), (2, 1), (2, 2)],
      [(0, 0), (1, 0), (2, 0)],
      [(0, 1), (1, 1), (2, 1)],
      [(0, 2), (1, 2), (2, 2)],
      [(0, 0), (1, 1), (2, 2)],
      [(0, 2), (1, 1), (2, 0)]]"

text \<open>
  \<open>_gameBoard[row][col] === mark\<close> for natural \<open>row\<close> and \<open>col\<close>: a \<open>TypeError\<close> when the
  grid has no such row, false when the row has no such column (\<open>undefined\<close> is no mark).
\<close>

definition cellIs :: "string list list \<Rightarrow> nat \<Rightarrow> nat \<Rightarrow> string \<Rightarrow> jsError + bool" where
  "cellIs b row col mark =
     (if length b \<le> row then Inl TypeError
      else if length (b ! row) \<le> col then Inr False
      else Inr (b ! row ! col = mark))"

text \<open>The inner loop of \<open>checkWinner\<close>: \<open>positionMatched\<close> over the coordinates of one
  pattern.\<close>

fun countMatched :: "(nat \<times> nat) list \<Rightarrow> string list list \<Rightarrow> string \<Rightarrow> nat \<Rightarrow> jsError + nat" where
  "countMatched [] b mark positionMatched = Inr positionMatched"
| "countMatched ((row, col) # pos) b mark positionMatched =
     (case cellIs b row col mark of
        Inl e \<Rightarrow> Inl e
      | Inr hit \<Rightarrow>
          countMatched pos b mark (if hit then positionMatched + 1 else positionMatched))"

text \<open>The outer loop: the first pattern with three matches returns true.\<close>

fun scanPositions :: "(nat \<times> nat) list list \<Rightarrow> string list list \<Rightarrow> string \<Rightarrow> jsError + bool" where
  "scanPositions [] b mark = Inr False"
| "scanPositions (pos # rest) b mark =
     (case countMatched pos b mark 0 of
        Inl e \<Rightarrow> Inl e
      | Inr positionMatched \<Rightarrow>
          if positionMatched = 3 then Inr True else scanPositions rest b mark)"

definition checkWinner :: "player \<Rightarrow> gameBoard \<Rightarrow> jsError + bool" where
  "checkWinner p s = scanPositions winPositions (getBoard s) (getPlayerMark p)"

text \<open>
  The winning patterns as the specification words them: the 3 rows, the 3 columns and
  the 2 diagonals of the grid; and a mark occupying all three coordinates of one of them.
\<close>

definition specPatterns :: "(nat \<times> nat) list list" where
  "specPatterns =
     map (\<lambda>r. map (\<lambda>c. (r, c)) [0, 1, 2]) [0, 1, 2] @
     map (\<lambda>c. map (\<lambda>r. (r, c)) [0, 1, 2]) [0, 1, 2] @
     [map (\<lambda>i. (i, i)) [0, 1, 2], map (\<lambda>i. (i, 2 - i)) [0, 1, 2]]"

definition occupiesPattern :: "string list list \<Rightarrow> string \<Rightarrow> bool" where
  "occupiesPattern b mark =
     list_ex (\<lambda>pos. list_all (\<lambda>(row, col). b ! row ! col = mark) pos) specPatterns"

text \<open>The two players of the game module, \<open>null\<close> until \<open>setupPlayer\<close> has run.\<close>

record game =
  player1 :: "player option"
  player2 :: "player option"

definition noPlayers :: game where
  "noPlayers = \<lparr>player1 = None, player2 = None\<rparr>"

text \<open>
  \<open>setupPlayer()\<close>, run against the answers the operator gives to the successive
  prompts. \<open>None\<close>: the answers ran out and the call is still waiting at a prompt.
  After the recursive call returns, control falls through to the two assignments.
\<close>

fun setupPlayer :: "string option list \<Rightarrow> game \<Rightarrow> (game \<times> string option list) option" where
  "setupPlayer (name1 # name2 # answers) g =
     (if name1 = name2 then
        (case setupPlayer answers g of
           None \<Rightarrow> None
         | Some (g', answers') \<Rightarrow>
             Some (g'\<lparr>player1 := Some (createPlayer name1 ''X''),
                      player2 := Some (createPlayer name2 ''O'')\<rparr>, answers'))
      else
        Some (g\<lparr>player1 := Some (createPlayer name1 ''X''),
                player2 := Some (createPlayer name2 ''O'')\<rparr>, answers))"
| "setupPlayer _ g = None"

text \<open>The names the game holds, when both players exist.\<close>

definition distinctNames :: "game \<Rightarrow> bool" where
  "distinctNames g =
     (case (player1 g, player2 g) of
        (Some p1, Some p2) \<Rightarrow> getPlayerName p1 \<noteq> getPlayerName p2
      | _ \<Rightarrow> True)"

text \<open>
  The \<open>do ... while\<close> of \<open>gameLoop\<close>, run against the numbers \<open>parseInt\<close> gives for the
  operator's successive answers: ask until \<open>setPlayerPosition\<close> returns true.
\<close>

datatype asked =
  Placed gameBoard "jsnum list"
| Waiting gameBoard
| Raised jsError
| Hangs

fun askCell :: "player \<Rightarrow> jsnum list \<Rightarrow> gameBoard \<Rightarrow> asked" where
  "askCell curPlayer [] s = Waiting s"
| "askCell curPlayer (cellNumber # answers) s =
     (case setPlayerPosition cellNumber (getPlayerMark curPlayer) s of
        None \<Rightarrow> Hangs
      | Some (Inl e) \<Rightarrow> Raised e
      | Some (Inr (ok, s')) \<Rightarrow>
          if ok then Placed s' answers else askCell curPlayer answers s')"

text \<open>
  How a run of \<open>gameLoop\<close> ends, and what it leaves: the board, and for every iteration
  of the outer loop the player selected there together with the board that player found.
\<close>

datatype ending =
  Won player
| Tie
| LoopExit
| AwaitingInput
| Threw jsError
| Hung

record run =
  turns :: "(player \<times> gameBoard) list"
  ending :: ending
  final :: gameBoard

definition stop :: "ending \<Rightarrow> gameBoard \<Rightarrow> run" where
  "stop e s = \<lparr>turns = [], ending = e, final = s\<rparr>"

definition after :: "player \<times> gameBoard \<Rightarrow> run \<Rightarrow> run" where
  "after t r = r\<lparr>turns := t # turns r\<rparr>"

text \<open>
  The outer \<open>while\<close> of \<open>gameLoop\<close>; \<open>cnt\<close> is the local variable
  \<open>gameBoardFilledCellCount\<close>. A \<open>null\<close> player raises at \<open>curPlayer.getPlayerName()\<close>.
\<close>

function gameLoopWhile :: "game \<Rightarrow> nat \<Rightarrow> jsnum list \<Rightarrow> gameBoard \<Rightarrow> run" where
  "gameLoopWhile g cnt answers s =
     (if cnt \<noteq> getTotalCellCount then
        (case (if cnt mod 2 = 0 then player1 g else player2 g) of
           None \<Rightarrow> stop (Threw TypeError) s
         | Some curPlayer \<Rightarrow>
             after (curPlayer, s)
               (case askCell curPlayer answers s of
                  Waiting s' \<Rightarrow> stop AwaitingInput s'
                | Raised e \<Rightarrow> stop (Threw e) s
                | Hangs \<Rightarrow> stop Hung s
                | Placed s' answers' \<Rightarrow>
                    (case checkWinner curPlayer s' of
                       Inl e \<Rightarrow> stop (Threw e) s'
                     | Inr won \<Rightarrow>
                         if won then stop (Won curPlayer) s'
                         else if getFilledCellCount s' = getTotalCellCount then stop Tie s'
                         else gameLoopWhile g (getFilledCellCount s') answers' s')))
      else stop LoopExit s)"
  by pat_completeness auto
termination
proof (relation "measure (\<lambda>(g, cnt, answers, s). length answers)")
  show "wf (measure (\<lambda>(g, cnt, answers, s). length answers))"
    by simp
next
  fix g :: game and cnt :: nat and answers :: "jsnum list" and s s' :: gameBoard
    and curPlayer :: player and answers' :: "jsnum list"
  assume placed: "askCell curPlayer answers s = Placed s' answers'"
  have shorter: "askCell p xs t = Placed t' xs' \<Longrightarrow> length xs' < length xs"
    for p xs t t' xs'
  proof (induction xs arbitrary: t)
    case Nil
    then show ?case by simp
  next
    case (Cons x xs)
    then show ?case
      by (fastforce split: option.splits sum.splits prod.splits if_splits)
  qed
  from shorter [OF placed]
  show "((g, getFilledCellCount s', answers', s'), (g, cnt, answers, s))
          \<in> measure (\<lambda>(g, cnt, answers, s). length answers)"
    by simp
qed

declare gameLoopWhile.simps [simp del]

definition gameLoop :: "game \<Rightarrow> jsnum list \<Rightarrow> gameBoard \<Rightarrow> run" where
  "gameLoop g answers s = gameLoopWhile g (getFilledCellCount s) answers s"

section \<open>The arrays behind the board\<close>

text \<open>
  What \<open>getBoard\<close> shares with the board depends on which array objects exist, so this
  part keeps them in a store: an array is a reference, an element is a string, a
  reference to another array, or \<open>undefined\<close>. \<open>fresh\<close> is the next unused reference.
\<close>

type_synonym ref = nat

datatype jsval = Str string | Arr ref | Undefined

record store =
  arrays :: "ref \<Rightarrow> jsval list option"
  fresh :: ref

definition emptyStore :: store where
  "emptyStore = \<lparr>arrays = (\<lambda>_. None), fresh = 0\<rparr>"

text \<open>An array literal or a spread creates a new array object.\<close>

definition newArray :: "jsval list \<Rightarrow> store \<Rightarrow> ref \<times> store" where
  "newArray xs st =
     (fresh st, st\<lparr>arrays := (arrays st)(fresh st := Some xs), fresh := Suc (fresh st)\<rparr>)"

text \<open>The literal that initialises \<open>board\<close>: three row arrays, then the array of the
  rows.\<close>

definition newBoard :: "store \<Rightarrow> ref \<times> store" where
  "newBoard st =
     (case newArray [Str '' '', Str '' '', Str '' ''] st of (r0, st0) \<Rightarrow>
      case newArray [Str '' '', Str '' '', Str '' ''] st0 of (r1, st1) \<Rightarrow>
      case newArray [Str '' '', Str '' '', Str '' ''] st1 of (r2, st2) \<Rightarrow>
        newArray [Arr r0, Arr r1, Arr r2] st2)"

definition boardRef :: ref where
  "boardRef = fst (newBoard emptyStore)"

definition initialStore :: store where
  "initialStore = snd (newBoard emptyStore)"

text \<open>\<open>getBoard()\<close> on the store: \<open>[...board]\<close> is a new array with the elements of
  \<open>board\<close>.\<close>

definition getBoardIn :: "ref \<Rightarrow> store \<Rightarrow> (ref \<times> store) option" where
  "getBoardIn b st =
     (case arrays st b of
        None \<Rightarrow> None
      | Some elems \<Rightarrow> Some (newArray elems st))"

text \<open>What a caller can do with an array it holds: \<open>a[i] = v\<close> (which extends the array
  when \<open>i\<close> is past its end) and \<open>a[i][j] = v\<close>.\<close>

definition putAt :: "jsval list \<Rightarrow> nat \<Rightarrow> jsval \<Rightarrow> jsval list" where
  "putAt xs i v =
     (if i < length xs then xs[i := v]
      else xs @ replicate (i - length xs) Undefined @ [v])"

definition setElem :: "ref \<Rightarrow> nat \<Rightarrow> jsval \<Rightarrow> store \<Rightarrow> store" where
  "setElem a i v st =
     (case arrays st a of
        None \<Rightarrow> st
      | Some xs \<Rightarrow> st\<lparr>arrays := (arrays st)(a := Some (putAt xs i v))\<rparr>)"

definition setNested :: "ref \<Rightarrow> nat \<Rightarrow> nat \<Rightarrow> jsval \<Rightarrow> store \<Rightarrow> store" where
  "setNested a i j v st =
     (case arrays st a of
        None \<Rightarrow> st
      | Some xs \<Rightarrow>
          if i < length xs then (case xs ! i of Arr r \<Rightarrow> setElem r j v st | _ \<Rightarrow> st)
          else st)"

text \<open>The grid the board module reads through \<open>board\<close>.\<close>

definition rowOf :: "store \<Rightarrow> jsval \<Rightarrow> jsval list" where
  "rowOf st v =
     (case v of
        Arr r \<Rightarrow> (case arrays st r of None \<Rightarrow> [] | Some cells \<Rightarrow> cells)
      | _ \<Rightarrow> [])"

definition gridOf :: "ref \<Rightarrow> store \<Rightarrow> jsval list list" where
  "gridOf b st =
     (case arrays st b of
        None \<Rightarrow> []
      | Some elems \<Rightarrow> map (rowOf st) elems)"

text \<open>The board and the rows it refers to are array objects of the store.\<close>

definition isRow :: "store \<Rightarrow> jsval \<Rightarrow> bool" where
  "isRow st v = (case v of Arr r \<Rightarrow> r < fresh st | _ \<Rightarrow> False)"

definition holdsBoard :: "ref \<Rightarrow> store \<Rightarrow> bool" where
  "holdsBoard b st =
     (b < fresh st \<and>
      (case arrays st b of None \<Rightarrow> False | Some elems \<Rightarrow> list_all (isRow st) elems))"

section \<open>Vocabulary of the properties\<close>

text \<open>A cell number inside the interval from 1 to 9, and a number that is whole.\<close>

definition inRange :: "jsnum \<Rightarrow> bool" where
  "inRange c = (case c of Fin q \<Rightarrow> 1 \<le> q \<and> q \<le> 9 | _ \<Rightarrow> False)"

definition isWhole :: "jsnum \<Rightarrow> bool" where
  "isWhole c = (case c of Fin q \<Rightarrow> of_int \<lfloor>q\<rfloor> = q | _ \<Rightarrow> False)"

text \<open>A coordinate pair that lies inside the grid.\<close>

definition inGrid :: "string list list \<Rightarrow> nat \<times> nat \<Rightarrow> bool" where
  "inGrid b rc = (fst rc < length b \<and> snd rc < length (b ! fst rc))"

text \<open>
  What is expected of the \<open>i\<close>-th turn of a run that started with \<open>start\<close> filled cells:
  the board found there has \<open>start + i\<close> filled cells, and the player selected is
  \<open>player1\<close> when that number is even and \<open>player2\<close> when it is odd.
\<close>

definition turnOk :: "game \<Rightarrow> nat \<Rightarrow> nat \<Rightarrow> player \<times> gameBoard \<Rightarrow> bool" where
  "turnOk g start i t =
     (filledCellCount (snd t) = start + i
      \<and> (if even (start + i) then player1 g else player2 g) = Some (fst t))"

section \<open>Locating a cell\<close>

lemma rowLoop_stop: "\<not> js_gt c (Fin 3) \<Longrightarrow> rowLoop r c = Some (r, c)"
  by (subst rowLoop.simps) (simp add: rows_def)

lemma rowLoop_step: "js_gt c (Fin 3) \<Longrightarrow> rowLoop r c = rowLoop (Suc r) (js_sub c (Fin 3))"
  by (subst rowLoop.simps) (simp add: rows_def)

lemma locateCell_low: "q \<le> 3 \<Longrightarrow> locateCell (Fin q) = Some (0, Fin (q - 1))"
  by (simp add: locateCell_def rowLoop_stop js_gt_def)

lemma locateCell_mid: "3 < q \<Longrightarrow> q \<le> 6 \<Longrightarrow> locateCell (Fin q) = Some (1, Fin (q - 4))"
  by (simp add: locateCell_def rowLoop_step rowLoop_stop js_gt_def)

lemma locateCell_high: "6 < q \<Longrightarrow> q \<le> 9 \<Longrightarrow> locateCell (Fin q) = Some (2, Fin (q - 7))"
  by (simp add: locateCell_def rowLoop_step rowLoop_stop js_gt_def)

lemma locateCell_NaN: "locateCell NaN = Some (0, NaN)"
  by (simp add: locateCell_def rowLoop_stop js_gt_def)

lemma cell_number_cases:
  fixes n :: int
  assumes "1 \<le> n" and "n \<le> 9"
  shows "n \<in> {1, 2, 3, 4, 5, 6, 7, 8, 9}"
  using assms by simp arith

lemma locateCell_int:
  assumes "1 \<le> n" and "n \<le> 9"
  shows "locateCell (Fin (of_int n)) = Some (specRow n, Fin (of_nat (specCol n)))"
  using cell_number_cases [OF assms]
  by (auto simp: locateCell_low locateCell_mid locateCell_high specRow_def specCol_def)

lemma wellFormed_grid:
  assumes "wellFormed s"
  obtains a0 a1 a2 b0 b1 b2 c0 c1 c2
  where "board s = [[a0, a1, a2], [b0, b1, b2], [c0, c1, c2]]"
proof -
  from assms have len: "length (board s) = 3" and all3: "\<forall>row \<in> set (board s). length row = 3"
    by (simp_all add: wellFormed_def rows_def cols_def list_all_iff)
  from len obtain x y z where xyz: "board s = [x, y, z]"
    by (auto simp: length_Suc_conv numeral_3_eq_3)
  from all3 xyz have "length x = 3" "length y = 3" "length z = 3" by simp_all
  then obtain a0 a1 a2 b0 b1 b2 c0 c1 c2
    where "x = [a0, a1, a2]" "y = [b0, b1, b2]" "z = [c0, c1, c2]"
    by (auto simp: length_Suc_conv numeral_3_eq_3)
  with xyz show thesis using that by simp
qed

lemma setPlayerPosition_int:
  assumes wf: "wellFormed s" and lo: "1 \<le> n" and hi: "n \<le> 9"
  shows "setPlayerPosition (Fin (of_int n)) m s =
           Some (Inr (if board s ! specRow n ! specCol n = '' ''
                      then (True, s\<lparr>board := (board s)[specRow n :=
                                      (board s ! specRow n)[specCol n := m]],
                                    filledCellCount := filledCellCount s + 1\<rparr>)
                      else (False, s)))"
proof -
  have r: "specRow n < 3" and c: "specCol n < 3"
    using lo hi by (simp_all add: specRow_def specCol_def) 
  from wf have len: "length (board s) = 3"
    by (simp add: wellFormed_def rows_def)
  from wf r len have rowlen: "length (board s ! specRow n) = 3"
    by (simp add: wellFormed_def cols_def list_all_length)
  have guard: "\<not> (js_lt (Fin (of_int n)) (Fin 1) \<or> js_gt (Fin (of_int n)) (Fin 9))"
    using lo hi by (simp add: js_gt_def)
  have idx: "isIndex (board s ! specRow n) (Fin (of_nat (specCol n)))"
    using c rowlen by (simp add: isIndex_def)
  have to: "toIndex (Fin (of_nat (specCol n))) = specCol n"
    by (simp add: toIndex_def)
  show ?thesis
    unfolding setPlayerPosition_def
    using guard r len idx to
    by (simp add: locateCell_int [OF lo hi] arrayGet_def)
qed

text \<open>
  C3: for every cell number from 1 to 9 the repeated-subtraction loop of
  \<open>setPlayerPosition\<close> yields the row \<open>(cellNumber - 1) div 3\<close> and the column
  \<open>(cellNumber - 1) mod 3\<close> of the specification, both inside the grid, and on a 3 by 3
  board the call reads and writes exactly that cell: it places the mark there when the
  cell is empty and otherwise changes nothing.
\<close>

theorem cell_number_translation:
  assumes "1 \<le> n" and "n \<le> 9"
  shows "locateCell (Fin (of_int n)) = Some (specRow n, Fin (of_nat (specCol n)))
         \<and> specRow n < rows \<and> specCol n < cols
         \<and> (wellFormed s \<longrightarrow>
              setPlayerPosition (Fin (of_int n)) m s =
                Some (Inr (if board s ! specRow n ! specCol n = '' ''
                           then (True, s\<lparr>board := (board s)[specRow n :=
                                           (board s ! specRow n)[specCol n := m]],
                                         filledCellCount := filledCellCount s + 1\<rparr>)
                           else (False, s))))"
proof -
  have "specRow n < rows" and "specCol n < cols"
    using assms by (simp_all add: specRow_def specCol_def rows_def cols_def)
  then show ?thesis
    using locateCell_int [OF assms] setPlayerPosition_int [OF _ assms] by blast
qed

theorem cell_number_translation_witness:
  "(1::int) \<le> 8 \<and> (8::int) \<le> 9 \<and> wellFormed initialBoard
   \<and> locateCell (Fin 8) = Some (2, Fin 1)
   \<and> setPlayerPosition (Fin 8) ''O'' initialBoard =
       Some (Inr (True,
         \<lparr>board = [['' '', '' '', '' ''], ['' '', '' '', '' ''], ['' '', ''O'', '' '']],
          filledCellCount = 1\<rparr>))"
proof -
  have wf: "wellFormed initialBoard"
    by (simp add: wellFormed_def initialBoard_def rows_def cols_def)
  have r: "specRow 8 = 2" and c: "specCol 8 = 1"
    by (simp_all add: specRow_def specCol_def)
  from cell_number_translation [of 8 initialBoard "''O''"] wf r c
  show ?thesis
    by (simp add: initialBoard_def)
qed

section \<open>Placing a mark\<close>

lemma not_index_shift:
  fixes q k :: rat
  assumes "q \<notin> \<int>" and "k \<in> \<int>"
  shows "\<not> isIndex xs (Fin (q - k))"
proof
  assume "isIndex xs (Fin (q - k))"
  then have "of_int \<lfloor>q - k\<rfloor> = q - k"
    by (simp add: isIndex_def del: of_int_floor_cancel)
  then have "q = of_int \<lfloor>q - k\<rfloor> + k"
    by linarith
  moreover have "of_int \<lfloor>q - k\<rfloor> + k \<in> \<int>"
    using \<open>k \<in> \<int>\<close> by (intro Ints_add Ints_of_int)
  ultimately have "q \<in> \<int>" by simp
  with assms show False by simp
qed

lemma setPlayerPosition_other:
  assumes wf: "wellFormed s" and none: "\<forall>n. 1 \<le> n \<and> n \<le> 9 \<longrightarrow> c \<noteq> Fin (of_int n)"
  shows "setPlayerPosition c m s = Some (Inr (False, s))"
proof (cases c)
  case PosInf
  then show ?thesis by (simp add: setPlayerPosition_def js_gt_def)
next
  case NegInf
  then show ?thesis by (simp add: setPlayerPosition_def js_gt_def)
next
  case NaN
  from wf have "0 < length (board s)" by (simp add: wellFormed_def rows_def)
  with NaN show ?thesis
    by (simp add: setPlayerPosition_def js_gt_def locateCell_NaN arrayGet_def isIndex_def)
next
  case (Fin q)
  show ?thesis
  proof (cases "q < 1 \<or> 9 < q")
    case True
    with Fin show ?thesis by (auto simp: setPlayerPosition_def js_gt_def)
  next
    case False
    then have range: "1 \<le> q" "q \<le> 9" by simp_all
    have frac: "q \<notin> \<int>"
    proof
      assume "q \<in> \<int>"
      then obtain z where z: "q = of_int z" by (rule Ints_cases)
      with range have "1 \<le> z" "z \<le> 9" by simp_all
      with none Fin z show False by blast
    qed
    from wf have len: "length (board s) = 3" by (simp add: wellFormed_def rows_def)
    consider "q \<le> 3" | "3 < q" "q \<le> 6" | "6 < q"
      by linarith
    then obtain r k where loc: "locateCell (Fin q) = Some (r, Fin (q - k))"
      and r: "r < 3" and k: "k \<in> \<int>"
    proof cases
      case 1
      from locateCell_low [OF 1] show ?thesis
        using that [of 0 1] by simp
    next
      case 2
      from locateCell_mid [OF 2] show ?thesis
        using that [of 1 4] by simp
    next
      case 3
      from locateCell_high [OF 3 range(2)] show ?thesis
        using that [of 2 7] by simp
    qed
    from not_index_shift [OF frac k] have "\<not> isIndex (board s ! r) (Fin (q - k))" .
    with Fin range loc r len show ?thesis
      by (simp add: setPlayerPosition_def js_gt_def arrayGet_def)
  qed
qed

lemma setPlayerPosition_cases [consumes 1, case_names miss taken put]:
  assumes "wellFormed s"
  obtains (miss) "\<forall>n. 1 \<le> n \<and> n \<le> 9 \<longrightarrow> c \<noteq> Fin (of_int n)"
      "setPlayerPosition c m s = Some (Inr (False, s))"
  | (taken) n where "c = Fin (of_int n)" "1 \<le> n" "n \<le> 9"
      "board s ! specRow n ! specCol n \<noteq> '' ''"
      "setPlayerPosition c m s = Some (Inr (False, s))"
  | (put) n where "c = Fin (of_int n)" "1 \<le> n" "n \<le> 9"
      "board s ! specRow n ! specCol n = '' ''"
      "setPlayerPosition c m s =
         Some (Inr (True, s\<lparr>board := (board s)[specRow n :=
                                (board s ! specRow n)[specCol n := m]],
                             filledCellCount := filledCellCount s + 1\<rparr>))"
proof (cases "\<exists>n. 1 \<le> n \<and> n \<le> 9 \<and> c = Fin (of_int n)")
  case False
  then have none: "\<forall>n. 1 \<le> n \<and> n \<le> 9 \<longrightarrow> c \<noteq> Fin (of_int n)" by blast
  from setPlayerPosition_other [OF assms none] none miss show thesis by blast
next
  case True
  then obtain n where c: "c = Fin (of_int n)" and n: "1 \<le> n" "n \<le> 9"
    by blast
  show thesis
  proof (cases "board s ! specRow n ! specCol n = '' ''")
    case True
    with setPlayerPosition_int [OF assms n, of m] c n put show thesis by simp
  next
    case False
    with setPlayerPosition_int [OF assms n, of m] c n taken show thesis by simp
  qed
qed

lemma wellFormed_update:
  assumes "wellFormed s" and "r < 3"
  shows "wellFormed (s\<lparr>board := (board s)[r := (board s ! r)[c := m]], filledCellCount := k\<rparr>)"
  using assms
  by (auto simp: wellFormed_def list_all_length nth_list_update rows_def)

lemma specRow_bound: "1 \<le> n \<Longrightarrow> n \<le> 9 \<Longrightarrow> specRow n < 3"
  by (simp add: specRow_def)

lemma specCol_bound: "1 \<le> n \<Longrightarrow> specCol n < 3"
  by (simp add: specCol_def)

lemma setPlayerPosition_returns:
  assumes "wellFormed s"
  shows "\<exists>r s'. setPlayerPosition c m s = Some (Inr (r, s')) \<and> wellFormed s'
            \<and> (\<not> r \<longrightarrow> s' = s) \<and> (r \<longrightarrow> filledCellCount s' = filledCellCount s + 1)"
  using assms
proof (cases rule: setPlayerPosition_cases [where c = c and m = m])
  case miss
  with assms show ?thesis by blast
next
  case (taken n)
  with assms show ?thesis by blast
next
  case (put n)
  from wellFormed_update [OF assms specRow_bound [OF put(2,3)]] put(5)
  show ?thesis by fastforce
qed


lemma setPlayerPosition_false_same:
  assumes "setPlayerPosition c m s = Some (Inr (False, s'))"
  shows "s' = s"
  using assms
  by (auto simp: setPlayerPosition_def split: if_splits option.splits prod.splits)

lemma setPlayerPosition_true_count:
  assumes "setPlayerPosition c m s = Some (Inr (True, s'))"
  shows "filledCellCount s' = filledCellCount s + 1"
  using assms
  by (auto simp: setPlayerPosition_def split: if_splits option.splits prod.splits)

lemma not_inRange_no_cell:
  assumes "\<not> inRange c"
  shows "\<forall>n. 1 \<le> n \<and> n \<le> 9 \<longrightarrow> c \<noteq> Fin (of_int n)"
  using assms by (auto simp: inRange_def)

lemma not_isWhole_no_cell:
  assumes "\<not> isWhole c"
  shows "\<forall>n. 1 \<le> n \<and> n \<le> 9 \<longrightarrow> c \<noteq> Fin (of_int n)"
  using assms by (auto simp: isWhole_def)

lemma wellFormed_initialBoard: "wellFormed initialBoard"
  by (simp add: wellFormed_def initialBoard_def rows_def cols_def)

text \<open>
  C4: on a 3 by 3 board, \<open>setPlayerPosition\<close> returns false and leaves the grid and
  \<open>filledCellCount\<close> as they were for every cell number that is not in the interval from
  1 to 9 (below 1, above 9, an infinity, \<open>NaN\<close>), and for every cell number from 1 to 9
  whose cell is occupied. Whenever the call returns false, the state it leaves is the
  state it found.
\<close>

theorem failed_placement_changes_nothing:
  assumes "wellFormed s"
  shows "(\<not> inRange c \<longrightarrow> setPlayerPosition c m s = Some (Inr (False, s)))
         \<and> (1 \<le> n \<and> n \<le> 9 \<and> board s ! specRow n ! specCol n \<noteq> '' '' \<longrightarrow>
              setPlayerPosition (Fin (of_int n)) m s = Some (Inr (False, s)))
         \<and> (\<forall>s'. setPlayerPosition c m s = Some (Inr (False, s')) \<longrightarrow> s' = s)"
proof (intro conjI impI allI)
  assume "\<not> inRange c"
  from setPlayerPosition_other [OF assms not_inRange_no_cell [OF this]]
  show "setPlayerPosition c m s = Some (Inr (False, s))" .
next
  assume "1 \<le> n \<and> n \<le> 9 \<and> board s ! specRow n ! specCol n \<noteq> '' ''"
  then show "setPlayerPosition (Fin (of_int n)) m s = Some (Inr (False, s))"
    using setPlayerPosition_int [OF assms, of n m] by simp
next
  fix s'
  assume "setPlayerPosition c m s = Some (Inr (False, s'))"
  then show "s' = s" by (rule setPlayerPosition_false_same)
qed

theorem failed_placement_changes_nothing_witness:
  "wellFormed \<lparr>board = [[''X'', '' '', '' ''], ['' '', '' '', '' ''], ['' '', '' '', '' '']],
               filledCellCount = 1\<rparr>
   \<and> \<not> inRange (Fin 10) \<and> (1::int) \<le> 1 \<and> (1::int) \<le> 9
   \<and> setPlayerPosition (Fin 10) ''O''
        \<lparr>board = [[''X'', '' '', '' ''], ['' '', '' '', '' ''], ['' '', '' '', '' '']],
         filledCellCount = 1\<rparr> =
       Some (Inr (False,
        \<lparr>board = [[''X'', '' '', '' ''], ['' '', '' '', '' ''], ['' '', '' '', '' '']],
         filledCellCount = 1\<rparr>))
   \<and> setPlayerPosition (Fin 1) ''O''
        \<lparr>board = [[''X'', '' '', '' ''], ['' '', '' '', '' ''], ['' '', '' '', '' '']],
         filledCellCount = 1\<rparr> =
       Some (Inr (False,
        \<lparr>board = [[''X'', '' '', '' ''], ['' '', '' '', '' ''], ['' '', '' '', '' '']],
         filledCellCount = 1\<rparr>))"
proof -
  let ?s = "\<lparr>board = [[''X'', '' '', '' ''], ['' '', '' '', '' ''], ['' '', '' '', '' '']],
             filledCellCount = 1\<rparr>"
  have wf: "wellFormed ?s"
    by (simp add: wellFormed_def rows_def cols_def)
  have out: "\<not> inRange (Fin 10)"
    by (simp add: inRange_def)
  have occ: "board ?s ! specRow 1 ! specCol 1 \<noteq> '' ''"
    by (simp add: specRow_def specCol_def)
  from failed_placement_changes_nothing [OF wf, of "Fin 10" "''O''" 1] out occ wf
  show ?thesis by simp
qed

text \<open>
  C9: on a 3 by 3 board \<open>setPlayerPosition\<close> returns for every number it is given: it
  neither raises nor loops. A false result leaves the state unchanged; \<open>NaN\<close> and every
  number from 1 to 9 that is not whole give false.
\<close>

theorem setPlayerPosition_never_raises:
  assumes "wellFormed s"
  shows "(\<exists>r s'. setPlayerPosition c m s = Some (Inr (r, s')) \<and> (\<not> r \<longrightarrow> s' = s))
         \<and> setPlayerPosition NaN m s = Some (Inr (False, s))
         \<and> (inRange c \<and> \<not> isWhole c \<longrightarrow> setPlayerPosition c m s = Some (Inr (False, s)))"
proof (intro conjI impI)
  from setPlayerPosition_returns [OF assms, of c m]
  show "\<exists>r s'. setPlayerPosition c m s = Some (Inr (r, s')) \<and> (\<not> r \<longrightarrow> s' = s)"
    by blast
next
  show "setPlayerPosition NaN m s = Some (Inr (False, s))"
    by (rule setPlayerPosition_other [OF assms]) simp
next
  assume "inRange c \<and> \<not> isWhole c"
  then have "\<not> isWhole c" ..
  from setPlayerPosition_other [OF assms not_isWhole_no_cell [OF this]]
  show "setPlayerPosition c m s = Some (Inr (False, s))" .
qed

theorem setPlayerPosition_never_raises_witness:
  "wellFormed initialBoard \<and> inRange (Fin (5 / 2)) \<and> \<not> isWhole (Fin (5 / 2))
   \<and> setPlayerPosition (Fin (5 / 2)) ''X'' initialBoard = Some (Inr (False, initialBoard))
   \<and> setPlayerPosition NaN ''X'' initialBoard = Some (Inr (False, initialBoard))"
proof -
  have r: "inRange (Fin (5 / 2))"
    by (simp add: inRange_def)
  have w: "\<not> isWhole (Fin (5 / 2))"
    by code_simp
  from setPlayerPosition_never_raises [OF wellFormed_initialBoard, of "Fin (5 / 2)" "''X''"] r w
    wellFormed_initialBoard
  show ?thesis by simp
qed

text \<open>
  C10: a call of \<open>setPlayerPosition\<close> with a cell number from 1 to 9 whose cell is empty
  returns true, the addressed cell then holds the mark, and each of the other cells of
  the grid holds what it held before.
\<close>

theorem successful_placement_frame:
  assumes "wellFormed s" and "1 \<le> n" and "n \<le> 9"
    and "board s ! specRow n ! specCol n = '' ''"
  shows "\<exists>s'. setPlayerPosition (Fin (of_int n)) m s = Some (Inr (True, s'))
           \<and> board s' ! specRow n ! specCol n = m
           \<and> (\<forall>r < rows. \<forall>c < cols. (r, c) \<noteq> (specRow n, specCol n) \<longrightarrow>
                 board s' ! r ! c = board s ! r ! c)"
proof -
  let ?s' = "s\<lparr>board := (board s)[specRow n := (board s ! specRow n)[specCol n := m]],
               filledCellCount := filledCellCount s + 1\<rparr>"
  from assms(1) have len: "length (board s) = 3"
    by (simp add: wellFormed_def rows_def)
  have r: "specRow n < 3" and c: "specCol n < 3"
    using assms(2,3) by (simp_all add: specRow_bound specCol_bound)
  from assms(1) r len have rowlen: "length (board s ! specRow n) = 3"
    by (simp add: wellFormed_def cols_def list_all_length)
  have "setPlayerPosition (Fin (of_int n)) m s = Some (Inr (True, ?s'))"
    using setPlayerPosition_int [OF assms(1-3), of m] assms(4) by simp
  moreover have "board ?s' ! specRow n ! specCol n = m"
    using r c len rowlen by simp
  moreover have "\<forall>r < rows. \<forall>c < cols. (r, c) \<noteq> (specRow n, specCol n) \<longrightarrow>
                   board ?s' ! r ! c = board s ! r ! c"
    using len r by (auto simp: nth_list_update rows_def)
  ultimately show ?thesis by blast
qed

theorem successful_placement_frame_witness:
  "wellFormed \<lparr>board = [[''X'', '' '', '' ''], ['' '', ''O'', '' ''], ['' '', '' '', '' '']],
               filledCellCount = 2\<rparr>
   \<and> (1::int) \<le> 6 \<and> (6::int) \<le> 9
   \<and> (\<exists>s'. setPlayerPosition (Fin 6) ''X''
               \<lparr>board = [[''X'', '' '', '' ''], ['' '', ''O'', '' ''], ['' '', '' '', '' '']],
                filledCellCount = 2\<rparr> = Some (Inr (True, s'))
            \<and> board s' ! 1 ! 2 = ''X''
            \<and> board s' ! 0 ! 0 = ''X'' \<and> board s' ! 1 ! 1 = ''O'')"
proof -
  let ?s = "\<lparr>board = [[''X'', '' '', '' ''], ['' '', ''O'', '' ''], ['' '', '' '', '' '']],
             filledCellCount = 2\<rparr>"
  have wf: "wellFormed ?s"
    by (simp add: wellFormed_def rows_def cols_def)
  have r: "specRow 6 = 1" and c: "specCol 6 = 2"
    by (simp_all add: specRow_def specCol_def)
  have free: "board ?s ! specRow 6 ! specCol 6 = '' ''"
    by (simp add: r c)
  from successful_placement_frame [OF wf _ _ free, of "''X''"]
  obtain s' where s': "setPlayerPosition (Fin 6) ''X'' ?s = Some (Inr (True, s'))"
    and put: "board s' ! 1 ! 2 = ''X''"
    and rest: "\<forall>r < rows. \<forall>c < cols. (r, c) \<noteq> (1, 2) \<longrightarrow> board s' ! r ! c = board ?s ! r ! c"
    by (auto simp: r c)
  from rest have "board s' ! 0 ! 0 = ''X''" and "board s' ! 1 ! 1 = ''O''"
    by (simp_all add: rows_def cols_def)
  with s' put wf show ?thesis by simp
qed

section \<open>Resetting the board\<close>

lemma resetRow_eq: "resetRow j row = take j row @ replicate (length row - j) '' ''"
proof (induction j row rule: resetRow.induct)
  case (1 j row)
  show ?case
  proof (cases "j < length row")
    case True
    then have "resetRow j row = resetRow (Suc j) (row[j := '' ''])"
      by (subst resetRow.simps) simp
    also have "\<dots> = take (Suc j) (row[j := '' '']) @ replicate (length row - Suc j) '' ''"
      using 1 True by simp
    also have "take (Suc j) (row[j := '' '']) = take j row @ ['' '']"
      using True by (simp add: take_Suc_conv_app_nth)
    also have "(take j row @ ['' '']) @ replicate (length row - Suc j) '' ''
                 = take j row @ replicate (length row - j) '' ''"
      using True by (simp add: replicate_Suc [symmetric] Suc_diff_Suc del: replicate_Suc)
    finally show ?thesis .
  next
    case False
    then show ?thesis
      by (subst resetRow.simps) simp
  qed
qed

lemma resetRows_eq:
  "resetRows i b = take i b @ map (\<lambda>row. replicate (length row) '' '') (drop i b)"
proof (induction i b rule: resetRows.induct)
  case (1 i b)
  show ?case
  proof (cases "i < length b")
    case True
    let ?b' = "b[i := resetRow 0 (b ! i)]"
    have "resetRows i b = resetRows (Suc i) ?b'"
      using True by (subst resetRows.simps) simp
    also have "\<dots> = take (Suc i) ?b' @ map (\<lambda>row. replicate (length row) '' '') (drop (Suc i) ?b')"
      using 1 True by simp
    also have "take (Suc i) ?b' = take i b @ [replicate (length (b ! i)) '' '']"
      using True by (simp add: take_Suc_conv_app_nth resetRow_eq)
    also have "drop (Suc i) ?b' = drop (Suc i) b"
      by simp
    also have "(take i b @ [replicate (length (b ! i)) '' ''])
                 @ map (\<lambda>row. replicate (length row) '' '') (drop (Suc i) b)
               = take i b @ map (\<lambda>row. replicate (length row) '' '') (drop i b)"
      using True by (simp add: Cons_nth_drop_Suc [symmetric])
    finally show ?thesis .
  next
    case False
    then show ?thesis
      by (subst resetRows.simps) simp
  qed
qed

lemma board_resetBoard:
  "board (resetBoard s) = map (\<lambda>row. replicate (length row) '' '') (board s)"
  by (simp add: resetBoard_def resetRows_eq)

lemma resetBoard_idem: "resetBoard (resetBoard s) = resetBoard s"
proof -
  have "board (resetBoard (resetBoard s)) = board (resetBoard s)"
    by (simp add: board_resetBoard)
  then show ?thesis
    by (simp add: resetBoard_def)
qed

lemma resetBoard_wellFormed:
  assumes "wellFormed s"
  shows "resetBoard s = initialBoard"
proof -
  from assms obtain a0 a1 a2 b0 b1 b2 c0 c1 c2
    where "board s = [[a0, a1, a2], [b0, b1, b2], [c0, c1, c2]]"
    by (rule wellFormed_grid)
  then have "board (resetBoard s) = board initialBoard"
    by (simp add: board_resetBoard initialBoard_def numeral_3_eq_3)
  moreover have "filledCellCount (resetBoard s) = filledCellCount initialBoard"
    by (simp add: resetBoard_def initialBoard_def)
  ultimately show ?thesis by simp
qed

text \<open>
  C8: from any board state \<open>resetBoard\<close> leaves every cell of every row empty, keeps
  the shape of the grid (so a 3 by 3 board becomes the initial board of 9 empty cells), sets
  \<open>filledCellCount\<close> to 0, and applying it twice gives the state that applying it once
  gives.
\<close>

theorem resetBoard_clears:
  "(\<forall>row \<in> set (board (resetBoard s)). \<forall>cell \<in> set row. cell = '' '')
   \<and> map length (board (resetBoard s)) = map length (board s)
   \<and> (wellFormed s \<longrightarrow> resetBoard s = initialBoard)
   \<and> filledCellCount (resetBoard s) = 0
   \<and> resetBoard (resetBoard s) = resetBoard s"
proof (intro conjI)
  show "\<forall>row \<in> set (board (resetBoard s)). \<forall>cell \<in> set row. cell = '' ''"
    by (auto simp: board_resetBoard)
  show "map length (board (resetBoard s)) = map length (board s)"
    by (simp add: board_resetBoard)
  show "wellFormed s \<longrightarrow> resetBoard s = initialBoard"
    by (simp add: resetBoard_wellFormed)
  show "filledCellCount (resetBoard s) = 0"
    by (simp add: resetBoard_def)
  show "resetBoard (resetBoard s) = resetBoard s"
    by (rule resetBoard_idem)
qed

theorem resetBoard_clears_witness:
  "wellFormed \<lparr>board = [[''X'', ''O'', ''X''], ['' '', ''O'', '' ''], ['' '', '' '', '' '']],
               filledCellCount = 4\<rparr>
   \<and> resetBoard \<lparr>board = [[''X'', ''O'', ''X''], ['' '', ''O'', '' ''], ['' '', '' '', '' '']],
                  filledCellCount = 4\<rparr> = initialBoard
   \<and> resetBoard initialBoard = initialBoard"
proof -
  let ?s = "\<lparr>board = [[''X'', ''O'', ''X''], ['' '', ''O'', '' ''], ['' '', '' '', '' '']],
             filledCellCount = 4\<rparr>"
  have wf: "wellFormed ?s"
    by (simp add: wellFormed_def rows_def cols_def)
  from resetBoard_clears [of ?s] wf have one: "resetBoard ?s = initialBoard"
    by blast
  from resetBoard_clears [of ?s] have "resetBoard (resetBoard ?s) = resetBoard ?s"
    by blast
  with one have "resetBoard initialBoard = initialBoard" by simp
  with wf one show ?thesis by blast
qed

section \<open>The counter of filled cells\<close>

lemma filter_count_update:
  assumes "i < length xs" and "\<not> P (xs ! i)" and "P v"
  shows "length (filter P (xs[i := v])) = Suc (length (filter P xs))"
  using assms
proof (induction xs arbitrary: i)
  case Nil
  then show ?case by simp
next
  case (Cons x xs)
  then show ?case by (cases i) simp_all
qed

lemma concat_count_update:
  assumes "r < length b" and "c < length (b ! r)" and "\<not> P (b ! r ! c)" and "P v"
  shows "length (filter P (concat (b[r := (b ! r)[c := v]])))
           = Suc (length (filter P (concat b)))"
  using assms
proof (induction b arbitrary: r)
  case Nil
  then show ?case by simp
next
  case (Cons row b)
  show ?case
  proof (cases r)
    case 0
    with Cons.prems show ?thesis
      by (simp add: filter_count_update)
  next
    case (Suc r')
    with Cons show ?thesis by simp
  qed
qed

lemma nonEmptyCells_put:
  assumes wf: "wellFormed s" and r: "r < 3" and c: "c < 3"
    and free: "board s ! r ! c = '' ''" and m: "m \<noteq> '' ''"
  shows "nonEmptyCells (s\<lparr>board := (board s)[r := (board s ! r)[c := m]],
                          filledCellCount := k\<rparr>) = Suc (nonEmptyCells s)"
proof -
  from wf have len: "length (board s) = 3" by (simp add: wellFormed_def rows_def)
  from wf r len have rowlen: "length (board s ! r) = 3"
    by (simp add: wellFormed_def cols_def list_all_length)
  from concat_count_update [of r "board s" c "\<lambda>cell. cell \<noteq> '' ''" m] r c len rowlen free m
  show ?thesis by (simp add: nonEmptyCells_def)
qed

lemma boardInv_initialBoard: "boardInv initialBoard"
proof -
  have "filledCellCount initialBoard = nonEmptyCells initialBoard"
    by (simp add: nonEmptyCells_def initialBoard_def)
  with wellFormed_initialBoard show ?thesis
    by (simp add: boardInv_def)
qed

lemma boardInv_bound:
  assumes "boardInv s"
  shows "filledCellCount s \<le> 9"
proof -
  from assms have wf: "wellFormed s" and cnt: "filledCellCount s = nonEmptyCells s"
    by (simp_all add: boardInv_def)
  from wf obtain a0 a1 a2 b0 b1 b2 c0 c1 c2
    where "board s = [[a0, a1, a2], [b0, b1, b2], [c0, c1, c2]]"
    by (rule wellFormed_grid)
  then have "length (concat (board s)) = 9" by simp
  moreover have "nonEmptyCells s \<le> length (concat (board s))"
    unfolding nonEmptyCells_def by (rule length_filter_le)
  ultimately show ?thesis using cnt by simp
qed

lemma boardInv_setPlayerPosition:
  assumes inv: "boardInv s" and m: "m \<noteq> '' ''"
    and call: "setPlayerPosition c m s = Some (Inr (r, s'))"
  shows "boardInv s' \<and> (if r then filledCellCount s' = filledCellCount s + 1 else s' = s)"
proof -
  from inv have wf: "wellFormed s" and cnt: "filledCellCount s = nonEmptyCells s"
    by (simp_all add: boardInv_def)
  from wf show ?thesis
  proof (cases rule: setPlayerPosition_cases [where c = c and m = m])
    case miss
    with call inv show ?thesis by simp
  next
    case (taken n)
    with call inv show ?thesis by simp
  next
    case (put n)
    let ?s' = "s\<lparr>board := (board s)[specRow n := (board s ! specRow n)[specCol n := m]],
                 filledCellCount := filledCellCount s + 1\<rparr>"
    have rb: "specRow n < 3" and cb: "specCol n < 3"
      using put by (simp_all add: specRow_bound specCol_bound)
    from put call have res: "r" "s' = ?s'" by simp_all
    have "wellFormed ?s'"
      by (rule wellFormed_update [OF wf rb])
    moreover have "nonEmptyCells ?s' = Suc (nonEmptyCells s)"
      by (rule nonEmptyCells_put [OF wf rb cb put(4) m])
    ultimately have "boardInv ?s'"
      using cnt by (simp add: boardInv_def)
    with res show ?thesis by simp
  qed
qed

lemma boardInv_resetBoard:
  assumes "boardInv s"
  shows "boardInv (resetBoard s)"
proof -
  from assms have "wellFormed s" by (simp add: boardInv_def)
  then have "resetBoard s = initialBoard" by (rule resetBoard_wellFormed)
  then show ?thesis by (simp add: boardInv_initialBoard)
qed

lemma reachable_boardInv:
  assumes "reachable s"
  shows "boardInv s"
  using assms
proof (induction rule: reachable.induct)
  case initial
  show ?case by (rule boardInv_initialBoard)
next
  case (placed s playerMark cellNumber r s')
  from boardInv_setPlayerPosition [OF placed.IH placed.hyps(2,3)]
  show ?case by simp
next
  case (reset s)
  then show ?case by (simp add: boardInv_resetBoard)
qed

text \<open>
  C5: the invariant (a 3 by 3 grid whose \<open>filledCellCount\<close> is the number of its
  non-empty cells) holds initially and in every state the board operations reach with
  marks other than the blank the board uses for an empty cell; under it the counter is
  at most 9; \<open>setPlayerPosition\<close> preserves it, adding exactly 1 to the counter when it
  returns true and changing nothing when it returns false; \<open>resetBoard\<close> preserves it.
\<close>

theorem filledCellCount_invariant:
  "boardInv initialBoard
   \<and> (reachable s \<longrightarrow> boardInv s)
   \<and> (boardInv s \<longrightarrow> filledCellCount s = nonEmptyCells s \<and> filledCellCount s \<le> 9)
   \<and> (boardInv s \<and> m \<noteq> '' '' \<and> setPlayerPosition c m s = Some (Inr (r, s')) \<longrightarrow>
        boardInv s' \<and> (if r then filledCellCount s' = filledCellCount s + 1 else s' = s))
   \<and> (boardInv s \<longrightarrow> boardInv (resetBoard s))"
proof (intro conjI impI)
  show "boardInv initialBoard"
    by (rule boardInv_initialBoard)
  show "boardInv s" if "reachable s"
    using that by (rule reachable_boardInv)
  show "filledCellCount s = nonEmptyCells s" if "boardInv s"
    using that by (simp add: boardInv_def)
  show "filledCellCount s \<le> 9" if "boardInv s"
    using that by (rule boardInv_bound)
  show "boardInv (resetBoard s)" if "boardInv s"
    using that by (rule boardInv_resetBoard)
next
  assume a: "boardInv s \<and> m \<noteq> '' '' \<and> setPlayerPosition c m s = Some (Inr (r, s'))"
  then have "boardInv s" and "m \<noteq> '' ''"
    and "setPlayerPosition c m s = Some (Inr (r, s'))"
    by blast+
  from boardInv_setPlayerPosition [OF this]
  show "boardInv s'"
    and "if r then filledCellCount s' = filledCellCount s + 1 else s' = s"
    by blast+
qed


theorem filledCellCount_invariant_witness:
  "reachable initialBoard \<and> boardInv initialBoard \<and> ''X'' \<noteq> '' ''
   \<and> setPlayerPosition (Fin 5) ''X'' initialBoard =
        Some (Inr (True,
          \<lparr>board = [['' '', '' '', '' ''], ['' '', ''X'', '' ''], ['' '', '' '', '' '']],
           filledCellCount = 1\<rparr>))
   \<and> boardInv \<lparr>board = [['' '', '' '', '' ''], ['' '', ''X'', '' ''], ['' '', '' '', '' '']],
               filledCellCount = 1\<rparr>
   \<and> filledCellCount initialBoard \<le> 9
   \<and> boardInv (resetBoard initialBoard)"
proof -
  let ?s' = "\<lparr>board = [['' '', '' '', '' ''], ['' '', ''X'', '' ''], ['' '', '' '', '' '']],
              filledCellCount = 1\<rparr>"
  have call: "setPlayerPosition (Fin 5) ''X'' initialBoard = Some (Inr (True, ?s'))"
    by code_simp
  have mark: "''X'' \<noteq> '' ''"
    by simp
  note inv = filledCellCount_invariant [of initialBoard "''X''" "Fin 5" True ?s']
  from inv have init: "boardInv initialBoard"
    by blast
  from inv init call mark have "boardInv ?s'"
    by blast
  moreover from inv init have "filledCellCount initialBoard \<le> 9"
    by blast
  moreover from inv init have "boardInv (resetBoard initialBoard)"
    by blast
  ultimately show ?thesis
    using init call mark reachable.initial by blast
qed

section \<open>Detecting a win\<close>

lemma countMatched_eq:
  assumes "\<forall>rc \<in> set pos. inGrid b rc"
  shows "countMatched pos b mark k
           = Inr (k + length (filter (\<lambda>(row, col). b ! row ! col = mark) pos))"
  using assms
proof (induction pos arbitrary: k)
  case Nil
  then show ?case by simp
next
  case (Cons rc pos)
  obtain row col where rc: "rc = (row, col)" by (cases rc)
  with Cons.prems have "row < length b" "col < length (b ! row)"
    by (simp_all add: inGrid_def)
  then have "cellIs b row col mark = Inr (b ! row ! col = mark)"
    by (simp add: cellIs_def)
  with Cons rc show ?case by simp
qed

lemma all_matched:
  "(length (filter P xs) = length xs) = list_all P xs"
proof -
  have "length (filter P xs) + length (filter (\<lambda>x. \<not> P x) xs) = length xs"
    by (rule sum_length_filter_compl)
  then have "(length (filter P xs) = length xs) = (filter (\<lambda>x. \<not> P x) xs = [])"
    by auto
  then show ?thesis
    by (simp add: filter_empty_conv list_all_iff)
qed

lemma scanPositions_eq:
  assumes "\<forall>pos \<in> set ps. length pos = 3 \<and> (\<forall>rc \<in> set pos. inGrid b rc)"
  shows "scanPositions ps b mark
           = Inr (list_ex (\<lambda>pos. list_all (\<lambda>(row, col). b ! row ! col = mark) pos) ps)"
  using assms
proof (induction ps)
  case Nil
  then show ?case by simp
next
  case (Cons pos ps)
  let ?P = "\<lambda>(row, col). b ! row ! col = mark"
  from Cons.prems have len: "length pos = 3" and grid: "\<forall>rc \<in> set pos. inGrid b rc"
    by simp_all
  have cnt: "countMatched pos b mark 0 = Inr (length (filter ?P pos))"
    using countMatched_eq [OF grid, of mark 0] by simp
  have "(length (filter ?P pos) = 3) = list_all ?P pos"
    using all_matched [of ?P pos] len by simp
  with cnt Cons show ?case by simp
qed

lemma winPositions_spec: "winPositions = specPatterns"
  by (simp add: winPositions_def specPatterns_def)

lemma winPositions_inGrid:
  assumes "wellFormed s"
  shows "\<forall>pos \<in> set winPositions. length pos = 3 \<and> (\<forall>rc \<in> set pos. inGrid (board s) rc)"
proof -
  from assms obtain a0 a1 a2 b0 b1 b2 c0 c1 c2
    where "board s = [[a0, a1, a2], [b0, b1, b2], [c0, c1, c2]]"
    by (rule wellFormed_grid)
  then show ?thesis
    by (simp add: winPositions_def inGrid_def)
qed

lemma checkWinner_eq:
  assumes "wellFormed s"
  shows "checkWinner p s = Inr (occupiesPattern (board s) (getPlayerMark p))"
  using scanPositions_eq [OF winPositions_inGrid [OF assms]]
  by (simp add: checkWinner_def getBoard_def occupiesPattern_def winPositions_spec)

lemma no_pattern_on_initialBoard:
  assumes "mark \<noteq> '' ''"
  shows "\<not> occupiesPattern (board initialBoard) mark"
  using assms
  by (auto simp: occupiesPattern_def specPatterns_def initialBoard_def)

text \<open>
  C2: on a 3 by 3 board \<open>checkWinner\<close> returns (it does not raise), and its result is true
  exactly when the player's mark occupies all three coordinates of one of the winning
  patterns; the table of the source is the 3 rows, 3 columns and 2 diagonals, 8 patterns
  in all. So it returns false on a board with no completed line, and on the all-empty
  board for every mark other than the blank of an empty cell. The function reads the
  board and returns a truth value only: it has no state to hand back.
\<close>

theorem checkWinner_iff_pattern:
  assumes "wellFormed s"
  shows "checkWinner p s = Inr (occupiesPattern (board s) (getPlayerMark p))
         \<and> winPositions = specPatterns \<and> length winPositions = 8
         \<and> (\<not> occupiesPattern (board s) (getPlayerMark p) \<longrightarrow> checkWinner p s = Inr False)
         \<and> (getPlayerMark p \<noteq> '' '' \<longrightarrow> checkWinner p initialBoard = Inr False)"
proof (intro conjI impI)
  show eq: "checkWinner p s = Inr (occupiesPattern (board s) (getPlayerMark p))"
    by (rule checkWinner_eq [OF assms])
  show "winPositions = specPatterns"
    by (rule winPositions_spec)
  show "length winPositions = 8"
    by (simp add: winPositions_def)
  show "checkWinner p s = Inr False" if "\<not> occupiesPattern (board s) (getPlayerMark p)"
    using that eq by simp
  show "checkWinner p initialBoard = Inr False" if "getPlayerMark p \<noteq> '' ''"
    using checkWinner_eq [OF wellFormed_initialBoard, of p] no_pattern_on_initialBoard [OF that]
    by simp
qed

theorem checkWinner_iff_pattern_witness:
  "wellFormed \<lparr>board = [[''X'', ''O'', ''O''], ['' '', ''X'', '' ''], ['' '', '' '', ''X'']],
               filledCellCount = 5\<rparr>
   \<and> checkWinner (createPlayer (Some ''Ann'') ''X'')
        \<lparr>board = [[''X'', ''O'', ''O''], ['' '', ''X'', '' ''], ['' '', '' '', ''X'']],
         filledCellCount = 5\<rparr> = Inr True
   \<and> \<not> occupiesPattern [[''X'', ''O'', ''O''], ['' '', ''X'', '' ''], ['' '', '' '', ''X'']] ''O''
   \<and> checkWinner (createPlayer (Some ''Bob'') ''O'')
        \<lparr>board = [[''X'', ''O'', ''O''], ['' '', ''X'', '' ''], ['' '', '' '', ''X'']],
         filledCellCount = 5\<rparr> = Inr False
   \<and> ''O'' \<noteq> '' ''
   \<and> checkWinner (createPlayer (Some ''Bob'') ''O'') initialBoard = Inr False"
proof -
  let ?s = "\<lparr>board = [[''X'', ''O'', ''O''], ['' '', ''X'', '' ''], ['' '', '' '', ''X'']],
             filledCellCount = 5\<rparr>"
  have wf: "wellFormed ?s"
    by (simp add: wellFormed_def rows_def cols_def)
  have x: "occupiesPattern (board ?s) ''X''"
    by (simp add: occupiesPattern_def specPatterns_def)
  have o: "\<not> occupiesPattern (board ?s) ''O''"
    by (simp add: occupiesPattern_def specPatterns_def)
  from checkWinner_iff_pattern [OF wf, of "createPlayer (Some ''Ann'') ''X''"] x
  have "checkWinner (createPlayer (Some ''Ann'') ''X'') ?s = Inr True"
    by (simp add: createPlayer_def)
  moreover
  from checkWinner_iff_pattern [OF wf, of "createPlayer (Some ''Bob'') ''O''"] o
  have "checkWinner (createPlayer (Some ''Bob'') ''O'') ?s = Inr False
        \<and> checkWinner (createPlayer (Some ''Bob'') ''O'') initialBoard = Inr False"
    by (simp add: createPlayer_def)
  ultimately show ?thesis
    using wf o by simp
qed

section \<open>Whose turn it is\<close>

lemma askCell_placed:
  assumes "askCell p xs s = Placed s' xs'"
  shows "filledCellCount s' = filledCellCount s + 1"
  using assms
proof (induction xs arbitrary: s)
  case Nil
  then show ?case by simp
next
  case (Cons x xs)
  show ?case
  proof (cases "setPlayerPosition x (getPlayerMark p) s")
    case None
    with Cons.prems show ?thesis by simp
  next
    case (Some res)
    show ?thesis
    proof (cases res)
      case (Inl e)
      with Some Cons.prems show ?thesis by simp
    next
      case (Inr pr)
      obtain ok t where pr: "pr = (ok, t)" by (cases pr)
      show ?thesis
      proof (cases ok)
        case True
        with Some Inr pr Cons.prems have "t = s'" by simp
        with Some Inr pr True show ?thesis
          by (simp add: setPlayerPosition_true_count)
      next
        case False
        with Some Inr pr have "t = s"
          by (simp add: setPlayerPosition_false_same)
        with Some Inr pr False Cons.prems have "askCell p xs s = Placed s' xs'" by simp
        then show ?thesis by (rule Cons.IH)
      qed
    qed
  qed
qed

lemma turns_stop [simp]: "turns (stop e s) = []"
  by (simp add: stop_def)

lemma turns_after [simp]: "turns (after t r) = t # turns r"
  by (simp add: after_def)

lemma gameLoopWhile_turns:
  assumes "cnt = filledCellCount s"
  shows "\<forall>i < length (turns (gameLoopWhile g cnt answers s)).
           turnOk g (filledCellCount s) i (turns (gameLoopWhile g cnt answers s) ! i)"
  using assms
proof (induction g cnt answers s rule: gameLoopWhile.induct)
  case (1 g cnt answers s)
  let ?run = "gameLoopWhile g cnt answers s"
  show ?case
  proof (cases "cnt \<noteq> getTotalCellCount")
    case False
    then have "?run = stop LoopExit s"
      by (subst gameLoopWhile.simps) simp
    then show ?thesis by simp
  next
    case go: True
    show ?thesis
    proof (cases "if cnt mod 2 = 0 then player1 g else player2 g")
      case None
      with go have "?run = stop (Threw TypeError) s"
        by (subst gameLoopWhile.simps) simp
      then show ?thesis by simp
    next
      case (Some curPlayer)
      from Some "1.prems" have first: "turnOk g (filledCellCount s) 0 (curPlayer, s)"
        by (simp add: turnOk_def even_iff_mod_2_eq_zero)
      have single: ?thesis if "?run = after (curPlayer, s) (stop e t)" for e t
        using that first by simp
      show ?thesis
      proof (cases "askCell curPlayer answers s")
        case (Waiting t)
        with go Some have "?run = after (curPlayer, s) (stop AwaitingInput t)"
          by (subst gameLoopWhile.simps) simp
        then show ?thesis by (rule single)
      next
        case (Raised e)
        with go Some have "?run = after (curPlayer, s) (stop (Threw e) s)"
          by (subst gameLoopWhile.simps) simp
        then show ?thesis by (rule single)
      next
        case Hangs
        with go Some have "?run = after (curPlayer, s) (stop Hung s)"
          by (subst gameLoopWhile.simps) simp
        then show ?thesis by (rule single)
      next
        case (Placed s' answers')
        from askCell_placed [OF Placed]
        have step: "filledCellCount s' = filledCellCount s + 1" .
        show ?thesis
        proof (cases "checkWinner curPlayer s'")
          case (Inl e)
          with go Some Placed have "?run = after (curPlayer, s) (stop (Threw e) s')"
            by (subst gameLoopWhile.simps) simp
          then show ?thesis by (rule single)
        next
          case (Inr won)
          show ?thesis
          proof (cases "won \<or> getFilledCellCount s' = getTotalCellCount")
            case True
            with go Some Placed Inr
            have "?run = after (curPlayer, s) (stop (Won curPlayer) s')
                  \<or> ?run = after (curPlayer, s) (stop Tie s')"
              by (subst (1 2) gameLoopWhile.simps) auto
            then show ?thesis using single by blast
          next
            case False
            let ?rest = "gameLoopWhile g (getFilledCellCount s') answers' s'"
            from False go Some Placed Inr
            have run: "?run = after (curPlayer, s) ?rest"
              by (subst gameLoopWhile.simps) simp
            from False have "\<not> won" "getFilledCellCount s' \<noteq> getTotalCellCount"
              by simp_all
            from "1.IH" [OF go Some Placed Inr this]
            have IH: "\<forall>i < length (turns ?rest). turnOk g (filledCellCount s') i (turns ?rest ! i)"
              by (simp add: getFilledCellCount_def)
            show ?thesis
            proof (intro allI impI)
              fix i
              assume i: "i < length (turns ?run)"
              show "turnOk g (filledCellCount s) i (turns ?run ! i)"
              proof (cases i)
                case 0
                with run first show ?thesis by simp
              next
                case (Suc j)
                with i run have "j < length (turns ?rest)" by simp
                with IH have "turnOk g (filledCellCount s') j (turns ?rest ! j)" by blast
                with Suc run step show ?thesis
                  by (simp add: turnOk_def)
              qed
            qed
          qed
        qed
      qed
    qed
  qed
qed

lemma setupPlayer_first_pair:
  assumes "setupPlayer names g0 = Some (g, rest)"
  shows "\<exists>name1 name2 answers. names = name1 # name2 # answers
           \<and> g = \<lparr>player1 = Some (createPlayer name1 ''X''),
                   player2 = Some (createPlayer name2 ''O'')\<rparr>"
proof (cases names)
  case Nil
  with assms show ?thesis by simp
next
  case (Cons name1 others)
  show ?thesis
  proof (cases others)
    case Nil
    with Cons assms show ?thesis by simp
  next
    case (Cons name2 answers)
    with \<open>names = name1 # others\<close> assms show ?thesis
      by (auto split: if_splits option.splits)
  qed
qed

text \<open>
  C6: in a game whose players \<open>setupPlayer\<close> created, the player selected in the \<open>i\<close>-th
  iteration of \<open>gameLoop\<close> finds a board with \<open>i\<close> more filled cells than the loop started
  with; that player is \<open>player1\<close>, with mark X, exactly when this number of filled cells is
  even, and \<open>player2\<close>, with mark O, exactly when it is odd. A loop that starts on an empty
  board therefore selects X, O, X, O, ... in turn.
\<close>

theorem turn_follows_parity:
  assumes "setupPlayer names g0 = Some (g, rest)"
    and "i < length (turns (gameLoop g answers s))"
    and "turns (gameLoop g answers s) ! i = (p, b)"
  shows "filledCellCount b = filledCellCount s + i
         \<and> (player1 g = Some p) = even (filledCellCount b)
         \<and> (player2 g = Some p) = odd (filledCellCount b)
         \<and> getPlayerMark p = (if even (filledCellCount b) then ''X'' else ''O'')
         \<and> (filledCellCount s = 0 \<longrightarrow> getPlayerMark p = (if even i then ''X'' else ''O''))"
proof -
  from setupPlayer_first_pair [OF assms(1)] obtain name1 name2
    where g: "g = \<lparr>player1 = Some (createPlayer name1 ''X''),
                    player2 = Some (createPlayer name2 ''O'')\<rparr>"
    by blast
  have "turnOk g (filledCellCount s) i (turns (gameLoop g answers s) ! i)"
    using gameLoopWhile_turns [of "getFilledCellCount s" s g answers] assms(2)
    by (simp add: gameLoop_def getFilledCellCount_def)
  with assms(3) have cnt: "filledCellCount b = filledCellCount s + i"
    and sel: "(if even (filledCellCount s + i) then player1 g else player2 g) = Some p"
    by (simp_all add: turnOk_def)
  have mark: "getPlayerMark p = (if even (filledCellCount b) then ''X'' else ''O'')"
    and one: "(player1 g = Some p) = even (filledCellCount b)"
    and two: "(player2 g = Some p) = odd (filledCellCount b)"
  proof -
    show "getPlayerMark p = (if even (filledCellCount b) then ''X'' else ''O'')"
      using sel cnt g by (auto simp: createPlayer_def split: if_splits)
    show "(player1 g = Some p) = even (filledCellCount b)"
      using sel cnt g by (auto simp: createPlayer_def split: if_splits)
    show "(player2 g = Some p) = odd (filledCellCount b)"
      using sel cnt g by (auto simp: createPlayer_def split: if_splits)
  qed
  have "getPlayerMark p = (if even i then ''X'' else ''O'')" if "filledCellCount s = 0"
    using that mark cnt by simp
  with cnt mark one two show ?thesis by blast
qed

theorem turn_follows_parity_witness:
  "setupPlayer [Some ''Ann'', Some ''Bob''] noPlayers =
     Some (\<lparr>player1 = Some (createPlayer (Some ''Ann'') ''X''),
            player2 = Some (createPlayer (Some ''Bob'') ''O'')\<rparr>, [])
   \<and> (1::nat) < length (turns (gameLoop
         \<lparr>player1 = Some (createPlayer (Some ''Ann'') ''X''),
          player2 = Some (createPlayer (Some ''Bob'') ''O'')\<rparr> [Fin 5, NaN, Fin 5, Fin 1] initialBoard))
   \<and> getPlayerMark (fst (turns (gameLoop
         \<lparr>player1 = Some (createPlayer (Some ''Ann'') ''X''),
          player2 = Some (createPlayer (Some ''Bob'') ''O'')\<rparr> [Fin 5, NaN, Fin 5, Fin 1] initialBoard) ! 1))
       = ''O''
   \<and> filledCellCount (snd (turns (gameLoop
         \<lparr>player1 = Some (createPlayer (Some ''Ann'') ''X''),
          player2 = Some (createPlayer (Some ''Bob'') ''O'')\<rparr> [Fin 5, NaN, Fin 5, Fin 1] initialBoard) ! 1))
       = 1"
proof -
  let ?g = "\<lparr>player1 = Some (createPlayer (Some ''Ann'') ''X''),
             player2 = Some (createPlayer (Some ''Bob'') ''O'')\<rparr>"
  let ?ts = "turns (gameLoop ?g [Fin 5, NaN, Fin 5, Fin 1] initialBoard)"
  have made: "setupPlayer [Some ''Ann'', Some ''Bob''] noPlayers = Some (?g, [])"
    by (simp add: noPlayers_def)
  have len: "1 < length ?ts"
    by code_simp
  have nth: "?ts ! 1 = (fst (?ts ! 1), snd (?ts ! 1))"
    by simp
  have start: "filledCellCount initialBoard = 0"
    by (simp add: initialBoard_def)
  from turn_follows_parity [OF made len nth] start
  have "getPlayerMark (fst (?ts ! 1)) = ''O''" and "filledCellCount (snd (?ts ! 1)) = 1"
    by simp_all
  with made len show ?thesis by blast
qed

section \<open>Setting up the players\<close>

text \<open>
  C1: \<open>setupPlayer\<close> asks again after two equal names, but when the recursive call
  returns, the outer call goes on to create the players from its own two names. With the
  answers Ann, Ann, Bob, Cat the call returns with both players named Ann.
\<close>

theorem setupPlayer_keeps_equal_names:
  "setupPlayer [Some ''Ann'', Some ''Ann'', Some ''Bob'', Some ''Cat''] noPlayers =
     Some (\<lparr>player1 = Some (createPlayer (Some ''Ann'') ''X''),
            player2 = Some (createPlayer (Some ''Ann'') ''O'')\<rparr>, [])
   \<and> \<not> distinctNames \<lparr>player1 = Some (createPlayer (Some ''Ann'') ''X''),
                       player2 = Some (createPlayer (Some ''Ann'') ''O'')\<rparr>"
  by (simp add: noPlayers_def distinctNames_def createPlayer_def)

section \<open>What the copy of the board shares\<close>

lemma rowOf_other:
  assumes "isRow st v" and "arrays st' = (arrays st)(c := x)" and "fresh st \<le> c"
  shows "rowOf st' v = rowOf st v"
  using assms by (auto simp: rowOf_def isRow_def split: jsval.splits)

lemma gridOf_other:
  assumes held: "holdsBoard b st" and arr: "arrays st' = (arrays st)(c := x)"
    and c: "fresh st \<le> c"
  shows "gridOf b st' = gridOf b st"
proof -
  from held obtain elems where elems: "arrays st b = Some elems"
    and rows: "list_all (isRow st) elems" and b: "b < fresh st"
    by (auto simp: holdsBoard_def split: option.splits)
  from b c have "b \<noteq> c" by simp
  with arr elems have "arrays st' b = Some elems" by simp
  moreover have "map (rowOf st') elems = map (rowOf st) elems"
    using rows rowOf_other [OF _ arr c] by (simp add: list_all_iff)
  ultimately show ?thesis using elems by (simp add: gridOf_def)
qed

lemma getBoardIn_shares:
  assumes held: "holdsBoard b st"
  shows "\<exists>elems. arrays st b = Some elems
           \<and> getBoardIn b st = Some (newArray elems st)
           \<and> fst (newArray elems st) \<noteq> b
           \<and> Arr (fst (newArray elems st)) \<notin> set elems
           \<and> arrays (snd (newArray elems st)) (fst (newArray elems st)) = Some elems
           \<and> arrays (snd (newArray elems st)) b = Some elems
           \<and> gridOf b (snd (newArray elems st)) = gridOf b st
           \<and> (\<forall>i v. gridOf b (setElem (fst (newArray elems st)) i v (snd (newArray elems st)))
                        = gridOf b st)"
proof -
  from held obtain elems where elems: "arrays st b = Some elems"
    and rows: "list_all (isRow st) elems" and b: "b < fresh st"
    by (auto simp: holdsBoard_def split: option.splits)
  let ?c = "fst (newArray elems st)" and ?st = "snd (newArray elems st)"
  have c: "?c = fresh st" by (simp add: newArray_def)
  have arr: "arrays ?st = (arrays st)(fresh st := Some elems)"
    by (simp add: newArray_def)
  have "getBoardIn b st = Some (newArray elems st)"
    using elems by (simp add: getBoardIn_def)
  moreover have "?c \<noteq> b" using b c by simp
  moreover have "Arr ?c \<notin> set elems"
    using rows c by (auto simp: list_all_iff isRow_def)
  moreover have "arrays ?st ?c = Some elems" using arr c by simp
  moreover have "arrays ?st b = Some elems" using arr b elems by simp
  moreover have "gridOf b ?st = gridOf b st"
    by (rule gridOf_other [OF held arr]) simp
  moreover have "gridOf b (setElem ?c i v ?st) = gridOf b st" for i v
  proof (rule gridOf_other [OF held])
    show "arrays (setElem ?c i v ?st) = (arrays st)(fresh st := Some (putAt elems i v))"
      using arr c by (simp add: setElem_def)
    show "fresh st \<le> fresh st" by simp
  qed
  ultimately show ?thesis using elems by blast
qed

lemma holdsBoard_initialStore: "holdsBoard boardRef initialStore"
  by (simp add: holdsBoard_def isRow_def boardRef_def initialStore_def newBoard_def
      newArray_def emptyStore_def)

lemma initialStore_board: "arrays initialStore boardRef = Some [Arr 0, Arr 1, Arr 2]"
  by (simp add: boardRef_def initialStore_def newBoard_def newArray_def emptyStore_def)

text \<open>
  C7: \<open>getBoard\<close> returns a new top-level array, different from the board and
  from each of its rows, whose elements are the very elements of \<open>board\<close>, that is, the
  board's own row arrays and not copies of them. Creating it leaves the grid as it was, and
  so does every assignment \<open>copy[i] = v\<close> to the returned array.
\<close>

theorem getBoard_copies_top_level_only:
  assumes "holdsBoard b st"
  shows "\<exists>c st' elems. getBoardIn b st = Some (c, st')
           \<and> c \<noteq> b \<and> Arr c \<notin> set elems
           \<and> arrays st b = Some elems \<and> arrays st' b = Some elems \<and> arrays st' c = Some elems
           \<and> gridOf b st' = gridOf b st
           \<and> (\<forall>i v. gridOf b (setElem c i v st') = gridOf b st)"
proof -
  from getBoardIn_shares [OF assms] obtain elems where
    e: "arrays st b = Some elems"
       "getBoardIn b st = Some (newArray elems st)"
       "fst (newArray elems st) \<noteq> b"
       "Arr (fst (newArray elems st)) \<notin> set elems"
       "arrays (snd (newArray elems st)) (fst (newArray elems st)) = Some elems"
       "arrays (snd (newArray elems st)) b = Some elems"
       "gridOf b (snd (newArray elems st)) = gridOf b st"
       "\<forall>i v. gridOf b (setElem (fst (newArray elems st)) i v (snd (newArray elems st)))
                = gridOf b st"
    by blast
  obtain c st' where cs: "newArray elems st = (c, st')" by (cases "newArray elems st")
  with e show ?thesis by auto
qed

theorem getBoard_copies_top_level_only_witness:
  "holdsBoard boardRef initialStore
   \<and> (\<exists>c st'. getBoardIn boardRef initialStore = Some (c, st')
         \<and> c \<noteq> boardRef
         \<and> arrays st' c = Some [Arr 0, Arr 1, Arr 2]
         \<and> gridOf boardRef (setElem c 0 (Str ''X'') st') = gridOf boardRef initialStore)"
proof -
  from getBoard_copies_top_level_only [OF holdsBoard_initialStore] initialStore_board
  have "\<exists>c st'. getBoardIn boardRef initialStore = Some (c, st')
         \<and> c \<noteq> boardRef
         \<and> arrays st' c = Some [Arr 0, Arr 1, Arr 2]
         \<and> gridOf boardRef (setElem c 0 (Str ''X'') st') = gridOf boardRef initialStore"
    by fastforce
  with holdsBoard_initialStore show ?thesis by blast
qed

text \<open>
  The rows of the returned array are not fresh: on the initial board the copy holds the
  references of the board's three rows, and \<open>copy[0][0] = "X"\<close> changes the cell the
  board module reads at row 0, column 0.
\<close>

theorem getBoard_rows_shared_counterexample:
  "getBoardIn boardRef initialStore = Some (newArray [Arr 0, Arr 1, Arr 2] initialStore)
   \<and> arrays initialStore boardRef = Some [Arr 0, Arr 1, Arr 2]
   \<and> fst (newArray [Arr 0, Arr 1, Arr 2] initialStore) = 4
   \<and> arrays (snd (newArray [Arr 0, Arr 1, Arr 2] initialStore)) 4 = Some [Arr 0, Arr 1, Arr 2]
   \<and> gridOf boardRef (snd (newArray [Arr 0, Arr 1, Arr 2] initialStore)) =
       [[Str '' '', Str '' '', Str '' ''], [Str '' '', Str '' '', Str '' ''],
        [Str '' '', Str '' '', Str '' '']]
   \<and> gridOf boardRef
         (setNested 4 0 0 (Str ''X'') (snd (newArray [Arr 0, Arr 1, Arr 2] initialStore))) =
       [[Str ''X'', Str '' '', Str '' ''], [Str '' '', Str '' '', Str '' ''],
        [Str '' '', Str '' '', Str '' '']]"
proof (intro conjI)
  show "getBoardIn boardRef initialStore = Some (newArray [Arr 0, Arr 1, Arr 2] initialStore)"
    by (simp add: getBoardIn_def initialStore_board)
  show "arrays initialStore boardRef = Some [Arr 0, Arr 1, Arr 2]"
    by (rule initialStore_board)
qed (simp_all add: gridOf_def rowOf_def setNested_def setElem_def putAt_def
      boardRef_def initialStore_def newBoard_def newArray_def emptyStore_def)

end
